theory Spec2Isabelle
  imports Main "HOL-Library.AList" "HOL-Library.Multiset"
begin

section \<open>Data model\<close>

text \<open>
  The server (app.js) keeps three pieces of state: the object \<open>connectedUsers\<close>
  (address to array of socket ids), the sockets that Socket.io currently holds
  connected, and the todos collection behind the Mongoose model \<open>Todo\<close>.

  A socket is its id together with \<open>socket.handshake.address\<close>. The address is a
  transport address, so it is never the name of a property that the object
  \<open>connectedUsers\<close> inherits from its prototype. The object is an association list in
  insertion order: \<open>Object.keys\<close> is the list of its first components.

  A string is a list of code units, each below 256, so its length is what
  \<open>.length\<close> reads off a string of such characters.
\<close>

type_synonym sid = string
type_synonym address = string
type_synonym socket = "sid \<times> address"
type_synonym registry = "(address \<times> sid list) list"

record todo =
  oid :: nat
  title :: "string option"
  description :: "string option"
  complete :: bool
  priority :: string
  dueDate :: "nat option"
  createdAt :: nat
  updatedAt :: nat

datatype event =
    EvCount nat
  | EvAll "todo list"
  | EvAdded todo
  | EvUpdated todo
  | EvDeleted nat
  | EvError string

type_synonym delivery = "sid \<times> event"

datatype error = TypeError | CastError | ValidationError | StoreError

record server =
  connectedUsers :: registry
  sockets :: "socket list"
  todos :: "todo list"
  nextId :: nat
  now :: nat
  dbUp :: bool

section \<open>Socket.io emission\<close>

text \<open>
  \<open>socket.emit\<close> delivers to the socket itself, \<open>socket.broadcast.emit\<close> to every
  connected socket except the sender, \<open>io.emit\<close> to every connected socket.
\<close>

definition socket_emit :: "socket \<Rightarrow> event \<Rightarrow> delivery list" where
  "socket_emit socket e = [(fst socket, e)]"

definition broadcast_emit :: "socket \<Rightarrow> socket list \<Rightarrow> event \<Rightarrow> delivery list" where
  "broadcast_emit socket conns e =
     map (\<lambda>t. (fst t, e)) (filter (\<lambda>t. fst t \<noteq> fst socket) conns)"

definition io_emit :: "socket list \<Rightarrow> event \<Rightarrow> delivery list" where
  "io_emit conns e = map (\<lambda>t. (fst t, e)) conns"

definition received :: "sid \<Rightarrow> delivery list \<Rightarrow> event list" where
  "received s out = map snd (filter (\<lambda>d. fst d = s) out)"

section \<open>Session registry (app.js, connection and disconnect handlers)\<close>

definition currentCount :: "registry \<Rightarrow> nat" where
  "currentCount cu = length (map fst cu)"

definition sessions :: "registry \<Rightarrow> address \<Rightarrow> sid list" where
  "sessions cu a = (case map_of cu a of None \<Rightarrow> [] | Some ids \<Rightarrow> ids)"

text \<open>
  Lines 356 to 359 of the connection handler: create the array on the first socket of
  an address, then push the socket id.
\<close>

definition registry_open :: "address \<Rightarrow> sid \<Rightarrow> registry \<Rightarrow> registry" where
  "registry_open a s cu =
     (let cu1 = (case map_of cu a of None \<Rightarrow> AList.update a [] cu | Some ids \<Rightarrow> cu)
      in case map_of cu1 a of
           None \<Rightarrow> cu1
         | Some ids \<Rightarrow> AList.update a (ids @ [s]) cu1)"

text \<open>
  Lines 460 to 467 of the disconnect handler: under the guard that the address has an
  entry, filter the id out and delete the entry when the array has become empty.
\<close>

definition registry_close :: "address \<Rightarrow> sid \<Rightarrow> registry \<Rightarrow> registry" where
  "registry_close a s cu =
     (case map_of cu a of
        None \<Rightarrow> cu
      | Some ids \<Rightarrow>
          (let ids' = filter (\<lambda>i. i \<noteq> s) ids;
               cu1 = AList.update a ids' cu
           in if length ids' = 0 then AList.delete a cu1 else cu1))"

definition on_connection :: "socket \<Rightarrow> server \<Rightarrow> delivery list \<times> server" where
  "on_connection socket st =
     (let cu = registry_open (snd socket) (fst socket) (connectedUsers st);
          userCount = currentCount cu
      in (socket_emit socket (EvCount userCount)
            @ broadcast_emit socket (sockets st) (EvCount userCount),
          st\<lparr>connectedUsers := cu\<rparr>))"

definition on_disconnect :: "socket \<Rightarrow> server \<Rightarrow> delivery list \<times> server" where
  "on_disconnect socket st =
     (let cu = registry_close (snd socket) (fst socket) (connectedUsers st);
          userCount = currentCount cu
      in (io_emit (sockets st) (EvCount userCount), st\<lparr>connectedUsers := cu\<rparr>))"

text \<open>
  Socket.io adds a socket to its connected set before it runs the connection handler,
  and removes it before it runs the disconnect handler. Socket ids are unique among
  connected sockets, and a socket disconnects only while connected: \<open>connect\<close> and
  \<open>disconnect\<close> return \<open>None\<close> on the events Socket.io never produces.
\<close>

definition connect :: "sid \<Rightarrow> address \<Rightarrow> server \<Rightarrow> (delivery list \<times> server) option" where
  "connect s a st =
     (if s \<in> set (map fst (sockets st)) then None
      else Some (on_connection (s, a) (st\<lparr>sockets := sockets st @ [(s, a)]\<rparr>)))"

definition disconnect :: "sid \<Rightarrow> server \<Rightarrow> (delivery list \<times> server) option" where
  "disconnect s st =
     (case map_of (sockets st) s of
        None \<Rightarrow> None
      | Some a \<Rightarrow>
          Some (on_disconnect (s, a)
                  (st\<lparr>sockets := filter (\<lambda>t. fst t \<noteq> s) (sockets st)\<rparr>)))"

datatype conn_event = Open sid address | Close sid

fun conn_step :: "conn_event \<Rightarrow> server \<Rightarrow> (delivery list \<times> server) option" where
  "conn_step (Open s a) st = connect s a st"
| "conn_step (Close s) st = disconnect s st"

fun run :: "conn_event list \<Rightarrow> server \<Rightarrow> server option" where
  "run [] st = Some st"
| "run (e # es) st =
     (case conn_step e st of None \<Rightarrow> None | Some (out, st') \<Rightarrow> run es st')"

definition startup :: "todo list \<Rightarrow> nat \<Rightarrow> nat \<Rightarrow> bool \<Rightarrow> server" where
  "startup ts n t up =
     \<lparr>connectedUsers = [], sockets = [], todos = ts, nextId = n, now = t, dbUp = up\<rparr>"

definition registry_inv :: "registry \<Rightarrow> bool" where
  "registry_inv cu = list_all (\<lambda>p. snd p \<noteq> []) cu"

definition open_addresses :: "server \<Rightarrow> address list" where
  "open_addresses st = remdups (map snd (sockets st))"

definition server_inv :: "server \<Rightarrow> bool" where
  "server_inv st =
     (distinct (map fst (sockets st)) \<and>
      distinct (map fst (connectedUsers st)) \<and>
      registry_inv (connectedUsers st) \<and>
      list_all (\<lambda>t. fst t \<in> set (sessions (connectedUsers st) (snd t))) (sockets st) \<and>
      list_all (\<lambda>p. list_all (\<lambda>i. (i, fst p) \<in> set (sockets st)) (snd p))
        (connectedUsers st))"

text \<open>Sequences of the registry's two operations, applied in order.\<close>

datatype reg_op = ROpen address sid | RClose address sid

fun reg_apply :: "reg_op \<Rightarrow> registry \<Rightarrow> registry" where
  "reg_apply (ROpen a s) cu = registry_open a s cu"
| "reg_apply (RClose a s) cu = registry_close a s cu"

definition reg_run :: "reg_op list \<Rightarrow> registry \<Rightarrow> registry" where
  "reg_run ops cu = fold reg_apply ops cu"

definition open_then_close ::
  "sid \<Rightarrow> address \<Rightarrow> server \<Rightarrow> (delivery list \<times> server) option" where
  "open_then_close s a st =
     (case connect s a st of
        None \<Rightarrow> None
      | Some (out1, st1) \<Rightarrow> disconnect s st1)"

text \<open>Two tabs of one address, a state reached by two opens.\<close>

definition two_tabs :: server where
  "two_tabs =
     \<lparr>connectedUsers = [(''10.0.0.1'', [''s1'', ''s2''])],
      sockets = [(''s1'', ''10.0.0.1''), (''s2'', ''10.0.0.1'')],
      todos = [], nextId = 0, now = 0, dbUp = True\<rparr>"

section \<open>The legacy server's registry\<close>

text \<open>
  The legacy server keeps \<open>address_list[address].list\<close>, an array of socket ids in
  which \<open>delete\<close> leaves a hole (\<open>None\<close>); \<open>indexOf\<close> skips holes and
  \<open>Object.keys\<close> of the array counts the indices that are not holes. Its disconnect
  handler reads \<open>address_list[address].list\<close> with no guard, which would raise a
  TypeError for an address that has no entry.
\<close>

type_synonym legacy_registry = "(address \<times> sid option list) list"

fun indexOf :: "sid option list \<Rightarrow> sid \<Rightarrow> nat option" where
  "indexOf [] s = None"
| "indexOf (x # xs) s =
     (if x = Some s then Some 0
      else case indexOf xs s of None \<Rightarrow> None | Some i \<Rightarrow> Some (Suc i))"

definition legacy_open :: "address \<Rightarrow> sid \<Rightarrow> legacy_registry \<Rightarrow> legacy_registry" where
  "legacy_open a s al =
     (case map_of al a of
        Some socketid \<Rightarrow> AList.update a (socketid @ [Some s]) al
      | None \<Rightarrow> AList.update a [Some s] al)"

definition legacy_close ::
  "address \<Rightarrow> sid \<Rightarrow> legacy_registry \<Rightarrow> error + legacy_registry" where
  "legacy_close a s al =
     (case map_of al a of
        None \<Rightarrow> Inl TypeError
      | Some socketid \<Rightarrow>
          (let socketid' = (case indexOf socketid s of
                              None \<Rightarrow> socketid
                            | Some i \<Rightarrow> socketid[i := None]);
               al1 = AList.update a socketid' al
           in Inr (if length (filter (\<lambda>x. x \<noteq> None) socketid') = 0
                   then AList.delete a al1 else al1)))"

text \<open>
  The legacy server under the events Socket.io delivers: a connection with a socket id
  not in use, and one disconnect for a connected socket. A run stops at the first
  handler that raises.
\<close>

type_synonym legacy_server = "legacy_registry \<times> socket list"

definition legacy_connect :: "sid \<Rightarrow> address \<Rightarrow> legacy_server \<Rightarrow> legacy_server option" where
  "legacy_connect s a st =
     (if s \<in> set (map fst (snd st)) then None
      else Some (legacy_open a s (fst st), snd st @ [(s, a)]))"

definition legacy_disconnect ::
  "sid \<Rightarrow> legacy_server \<Rightarrow> (error + legacy_server) option" where
  "legacy_disconnect s st =
     (case map_of (snd st) s of
        None \<Rightarrow> None
      | Some a \<Rightarrow>
          Some (case legacy_close a s (fst st) of
                  Inl err \<Rightarrow> Inl err
                | Inr al \<Rightarrow> Inr (al, filter (\<lambda>t. fst t \<noteq> s) (snd st))))"

fun legacy_run :: "conn_event list \<Rightarrow> legacy_server \<Rightarrow> (error + legacy_server) option" where
  "legacy_run [] st = Some (Inr st)"
| "legacy_run (Open s a # es) st =
     (case legacy_connect s a st of None \<Rightarrow> None | Some st' \<Rightarrow> legacy_run es st')"
| "legacy_run (Close s # es) st =
     (case legacy_disconnect s st of
        None \<Rightarrow> None
      | Some (Inl err) \<Rightarrow> Some (Inl err)
      | Some (Inr st') \<Rightarrow> legacy_run es st')"

definition legacy_inv :: "legacy_server \<Rightarrow> bool" where
  "legacy_inv st =
     (distinct (map fst (snd st)) \<and>
      list_all (\<lambda>t. Some (fst t) \<in> set (case map_of (fst st) (snd t) of
                                         None \<Rightarrow> [] | Some l \<Rightarrow> l)) (snd st))"

section \<open>The record store behind the model Todo\<close>

text \<open>
  The schema file models/todos.js is not among the sources. Its validators are
  parameters: \<open>validate\<close> is what \<open>save\<close> checks on a new document and
  \<open>validateUpdate\<close> what \<open>runValidators\<close> checks on the fields of an update.

  An id that arrives in a payload either casts to an ObjectId or does not. The store
  generates the id of a document and stamps \<open>createdAt\<close> and \<open>updatedAt\<close>
  when it stores it, and stamps \<open>updatedAt\<close> again on every update, as the
  timestamps of the schema do. Every store call fails
  while the connection to the database is down. Setters that the schema may apply to
  a field, such as trimming, are left out: nothing below depends on the title or the
  description of a stored record.
\<close>

record updates =
  u_title :: "string option"
  u_description :: "string option"
  u_complete :: "bool option"
  u_priority :: "string option"
  u_dueDate :: "nat option"
  u_updatedAt :: "nat option"

record todo_model =
  validate :: "todo \<Rightarrow> bool"
  validateUpdate :: "updates \<Rightarrow> bool"

datatype id_arg = ObjectId nat | NotObjectId

text \<open>
  A due date in a body is judged twice: \<open>isISO8601\<close> is the verdict of the
  validator of that name, \<open>castDate\<close> the date Mongoose casts the value to, if any.
  The two are independent: a week date passes the first and has no cast, a date written
  out in words has a cast and fails the first.
\<close>

datatype date_arg = DateArg (isISO8601: bool) (castDate: "nat option")

definition save :: "todo_model \<Rightarrow> todo \<Rightarrow> server \<Rightarrow> error + (todo \<times> server)" where
  "save Todo doc st =
     (if \<not> validate Todo doc then Inl ValidationError
      else if \<not> dbUp st then Inl StoreError
      else (let saved = doc\<lparr>oid := nextId st, createdAt := now st, updatedAt := now st\<rparr>
            in Inr (saved, st\<lparr>todos := todos st @ [saved], nextId := Suc (nextId st)\<rparr>)))"

text \<open>
  \<open>.sort({ createdAt: -1 })\<close>: descending creation time. The order among documents
  of equal creation time is the store's choice; here it is the later insertion first.
\<close>

definition sort_desc :: "todo list \<Rightarrow> todo list" where
  "sort_desc ts = rev (sort_key createdAt ts)"

definition find_sorted :: "(todo \<Rightarrow> bool) \<Rightarrow> server \<Rightarrow> error + todo list" where
  "find_sorted cond st =
     (if \<not> dbUp st then Inl StoreError else Inr (sort_desc (filter cond (todos st))))"

definition findById :: "nat \<Rightarrow> todo list \<Rightarrow> todo option" where
  "findById k ts = find (\<lambda>t. oid t = k) ts"

definition set_fields :: "updates \<Rightarrow> todo \<Rightarrow> todo" where
  "set_fields u t =
     t\<lparr>title := (case u_title u of None \<Rightarrow> title t | Some x \<Rightarrow> Some x),
       description := (case u_description u of None \<Rightarrow> description t | Some x \<Rightarrow> Some x),
       complete := (case u_complete u of None \<Rightarrow> complete t | Some x \<Rightarrow> x),
       priority := (case u_priority u of None \<Rightarrow> priority t | Some x \<Rightarrow> x),
       dueDate := (case u_dueDate u of None \<Rightarrow> dueDate t | Some x \<Rightarrow> Some x),
       updatedAt := (case u_updatedAt u of None \<Rightarrow> updatedAt t | Some x \<Rightarrow> x)\<rparr>"

fun replace_first :: "nat \<Rightarrow> todo \<Rightarrow> todo list \<Rightarrow> todo list" where
  "replace_first k r [] = []"
| "replace_first k r (t # ts) = (if oid t = k then r # ts else t # replace_first k r ts)"

fun remove_first :: "nat \<Rightarrow> todo list \<Rightarrow> todo list" where
  "remove_first k [] = []"
| "remove_first k (t # ts) = (if oid t = k then ts else t # remove_first k ts)"

text \<open>
  \<open>findByIdAndUpdate(id, { $set: updates }, { new: true, runValidators: true })\<close>:
  the updated document, or null when no document has the id.
\<close>

definition findByIdAndUpdate ::
  "todo_model \<Rightarrow> id_arg \<Rightarrow> updates \<Rightarrow> server \<Rightarrow> error + (todo option \<times> server)" where
  "findByIdAndUpdate Todo i u st =
     (case i of
        NotObjectId \<Rightarrow> Inl CastError
      | ObjectId k \<Rightarrow>
          if \<not> validateUpdate Todo u then Inl ValidationError
          else if \<not> dbUp st then Inl StoreError
          else (case findById k (todos st) of
                  None \<Rightarrow> Inr (None, st)
                | Some t \<Rightarrow>
                    (let r = (set_fields u t)\<lparr>updatedAt := now st\<rparr>
                     in Inr (Some r, st\<lparr>todos := replace_first k r (todos st)\<rparr>))))"

definition findByIdAndDelete :: "id_arg \<Rightarrow> server \<Rightarrow> error + (todo option \<times> server)" where
  "findByIdAndDelete i st =
     (case i of
        NotObjectId \<Rightarrow> Inl CastError
      | ObjectId k \<Rightarrow>
          if \<not> dbUp st then Inl StoreError
          else (case findById k (todos st) of
                  None \<Rightarrow> Inr (None, st)
                | Some t \<Rightarrow> Inr (Some t, st\<lparr>todos := remove_first k (todos st)\<rparr>)))"

section \<open>Session protocol handlers (app.js)\<close>

text \<open>
  A payload is \<open>None\<close> when the client sent the event with no data: reading a field
  of it raises a TypeError inside the handler's \<open>try\<close>. A handler runs as one step,
  so the sockets it emits to are those connected when the store call has returned.
\<close>

record add_data =
  d_title :: "string option"
  d_description :: "string option"
  d_complete :: "bool option"
  d_priority :: "string option"
  d_dueDate :: "date_arg option"

record update_data =
  upd_id :: id_arg
  upd_updates :: updates

text \<open>The operator \<open>||\<close> on an optional string and on an optional boolean.\<close>

definition or_str :: "string option \<Rightarrow> string \<Rightarrow> string" where
  "or_str v d = (case v of None \<Rightarrow> d | Some x \<Rightarrow> if x = [] then d else x)"

definition or_false :: "bool option \<Rightarrow> bool" where
  "or_false v = (case v of None \<Rightarrow> False | Some b \<Rightarrow> b)"

definition new_Todo ::
  "string option \<Rightarrow> string option \<Rightarrow> bool \<Rightarrow> string \<Rightarrow> nat option \<Rightarrow> todo" where
  "new_Todo ti de co pr du =
     \<lparr>oid = 0, title = ti, description = de, complete = co, priority = pr, dueDate = du,
      createdAt = 0, updatedAt = 0\<rparr>"

definition add_document :: "add_data \<Rightarrow> todo" where
  "add_document data =
     new_Todo (d_title data) (d_description data) False
       (or_str (d_priority data) ''medium'') None"

definition on_all :: "socket \<Rightarrow> server \<Rightarrow> delivery list \<times> server" where
  "on_all socket st =
     (case find_sorted (\<lambda>t. True) st of
        Inr ts \<Rightarrow> (socket_emit socket (EvAll ts), st)
      | Inl err \<Rightarrow> (socket_emit socket (EvError ''Failed to fetch todos''), st))"

definition on_add ::
  "todo_model \<Rightarrow> socket \<Rightarrow> add_data option \<Rightarrow> server \<Rightarrow> delivery list \<times> server" where
  "on_add Todo socket data st =
     (case (case data of
              None \<Rightarrow> Inl TypeError
            | Some d \<Rightarrow> save Todo (add_document d) st) of
        Inr (savedTodo, st') \<Rightarrow>
          (socket_emit socket (EvAdded savedTodo)
             @ broadcast_emit socket (sockets st') (EvAdded savedTodo), st')
      | Inl err \<Rightarrow> (socket_emit socket (EvError ''Failed to create todo''), st))"

definition on_update ::
  "todo_model \<Rightarrow> socket \<Rightarrow> update_data option \<Rightarrow> server \<Rightarrow> delivery list \<times> server" where
  "on_update Todo socket data st =
     (case (case data of
              None \<Rightarrow> Inl TypeError
            | Some d \<Rightarrow> findByIdAndUpdate Todo (upd_id d) (upd_updates d) st) of
        Inr (Some updatedTodo, st') \<Rightarrow>
          (socket_emit socket (EvUpdated updatedTodo)
             @ broadcast_emit socket (sockets st') (EvUpdated updatedTodo), st')
      | Inr (None, st') \<Rightarrow> (socket_emit socket (EvError ''Todo not found''), st')
      | Inl err \<Rightarrow> (socket_emit socket (EvError ''Failed to update todo''), st))"

definition on_delete ::
  "socket \<Rightarrow> id_arg option \<Rightarrow> server \<Rightarrow> delivery list \<times> server" where
  "on_delete socket data st =
     (case (case data of
              None \<Rightarrow> Inl TypeError
            | Some i \<Rightarrow>
                (case findByIdAndDelete i st of
                   Inl err \<Rightarrow> Inl err
                 | Inr (found, st') \<Rightarrow>
                     (case i of
                        ObjectId k \<Rightarrow> Inr (found, k, st')
                      | NotObjectId \<Rightarrow> Inl CastError))) of
        Inr (Some deletedTodo, k, st') \<Rightarrow>
          (socket_emit socket (EvDeleted k)
             @ broadcast_emit socket (sockets st') (EvDeleted k), st')
      | Inr (None, k, st') \<Rightarrow> (socket_emit socket (EvError ''Todo not found''), st')
      | Inl err \<Rightarrow> (socket_emit socket (EvError ''Failed to delete todo''), st))"

definition names_no_record :: "id_arg \<Rightarrow> server \<Rightarrow> bool" where
  "names_no_record i st =
     (case i of NotObjectId \<Rightarrow> True | ObjectId k \<Rightarrow> findById k (todos st) = None)"

section \<open>Request/response handlers (routes/todos.js)\<close>

datatype json =
    JData string todo
  | JList nat "todo list"
  | JErrors "string list"
  | JMessage string
  | JThrown error

type_synonym response = "nat \<times> json"

text \<open>
  The sanitizer \<open>trim\<close> strips what the class \<open>\\s\<close> of JavaScript matches:
  among the code units below 256 these are tab, line feed, vertical tab, form feed,
  carriage return, space and the no-break space.
\<close>

definition is_space :: "char \<Rightarrow> bool" where
  "is_space c =
     (c \<in> set [CHR '' '', CHR 0x09, CHR 0x0A, CHR 0x0B, CHR 0x0C, CHR 0x0D, CHR 0xA0])"

definition trim :: "string \<Rightarrow> string" where
  "trim s = rev (dropWhile is_space (rev (dropWhile is_space s)))"

record todo_filter =
  f_complete :: "bool option"
  f_priority :: "string option"

definition matches :: "todo_filter \<Rightarrow> todo \<Rightarrow> bool" where
  "matches f t =
     ((case f_complete f of None \<Rightarrow> True | Some c \<Rightarrow> complete t = c) \<and>
      (case f_priority f of None \<Rightarrow> True | Some p \<Rightarrow> priority t = p))"

text \<open>GET /todos, with the query parameters \<open>complete\<close> and \<open>priority\<close>.\<close>

definition get_todos :: "string option \<Rightarrow> string option \<Rightarrow> server \<Rightarrow> response" where
  "get_todos complete_q priority_q st =
     (let flt = \<lparr>f_complete = (case complete_q of None \<Rightarrow> None
                                | Some c \<Rightarrow> Some (c = ''true'')),
                 f_priority = (case priority_q of None \<Rightarrow> None
                                | Some p \<Rightarrow> if p = [] then None else Some p)\<rparr>
      in case find_sorted (matches flt) st of
           Inr ts \<Rightarrow> (200, JList (length ts) ts)
         | Inl err \<Rightarrow> (500, JThrown err))"

definition title_errors :: "add_data \<Rightarrow> string list" where
  "title_errors b =
     (let ti = (case d_title b of None \<Rightarrow> [] | Some x \<Rightarrow> x)
      in (if ti = [] then [''Title is required''] else [])
         @ (if length ti < 3 \<or> 200 < length ti
            then [''Title must be between 3 and 200 characters''] else []))"

definition priority_errors :: "add_data \<Rightarrow> string list" where
  "priority_errors b =
     (case d_priority b of
        None \<Rightarrow> []
      | Some p \<Rightarrow> if p \<in> set [''low'', ''medium'', ''high''] then []
                  else [''Priority must be low, medium, or high''])"

definition id_errors :: "id_arg \<Rightarrow> string list" where
  "id_errors todoId =
     (case todoId of NotObjectId \<Rightarrow> [''Invalid todo ID format''] | ObjectId k \<Rightarrow> [])"

text \<open>
  The validation chain of POST /todos. The sanitizer \<open>trim\<close> rewrites the body, an
  absent title reads as the empty string, and every failing validator adds its message.
\<close>

definition post_sanitize :: "add_data \<Rightarrow> add_data" where
  "post_sanitize b =
     b\<lparr>d_title := Some (trim (case d_title b of None \<Rightarrow> [] | Some x \<Rightarrow> x)),
       d_description := (case d_description b of None \<Rightarrow> None | Some x \<Rightarrow> Some (trim x))\<rparr>"

definition post_validation :: "add_data \<Rightarrow> string list" where
  "post_validation b =
     title_errors b
     @ (case d_description b of
          None \<Rightarrow> []
        | Some x \<Rightarrow> if 1000 < length x
                    then [''Description cannot exceed 1000 characters''] else [])
     @ priority_errors b
     @ (case d_dueDate b of
          None \<Rightarrow> []
        | Some dd \<Rightarrow> if isISO8601 dd then [] else [''Due date must be a valid date''])"

definition post_document :: "add_data \<Rightarrow> todo" where
  "post_document body =
     new_Todo (d_title body) (d_description body) (or_false (d_complete body))
       (or_str (d_priority body) ''medium'')
       (case d_dueDate body of None \<Rightarrow> None | Some dd \<Rightarrow> castDate dd)"

text \<open>
  \<open>new Todo(...)\<close> followed by \<open>save()\<close> in POST /todos: a due date that passed
  the validator and has no cast makes \<open>save\<close> reject the document.
\<close>

definition save_posted :: "todo_model \<Rightarrow> add_data \<Rightarrow> server \<Rightarrow> error + (todo \<times> server)" where
  "save_posted Todo b st =
     (case d_dueDate b of
        None \<Rightarrow> save Todo (post_document b) st
      | Some dd \<Rightarrow>
          (case castDate dd of
             None \<Rightarrow> Inl ValidationError
           | Some n \<Rightarrow> save Todo (post_document b) st))"

text \<open>
  POST /todos. The second component is what the handler emits to the sessions: the
  handler has no emit call, so it is empty on every path.
\<close>

definition post_todo ::
  "todo_model \<Rightarrow> add_data \<Rightarrow> server \<Rightarrow> response \<times> delivery list \<times> server" where
  "post_todo Todo body st =
     (let b = post_sanitize body; errors = post_validation b
      in if errors \<noteq> [] then ((400, JErrors errors), [], st)
         else (case save_posted Todo b st of
                 Inr (savedTodo, st') \<Rightarrow>
                   ((201, JData ''Todo created successfully'' savedTodo), [], st')
               | Inl err \<Rightarrow> ((500, JThrown err), [], st)))"

text \<open>DELETE /todos/:todoId, behind the check that the parameter is a Mongo id.\<close>

definition delete_todo ::
  "id_arg \<Rightarrow> server \<Rightarrow> response \<times> delivery list \<times> server" where
  "delete_todo todoId st =
     (case todoId of
        NotObjectId \<Rightarrow> ((400, JErrors [''Invalid todo ID format'']), [], st)
      | ObjectId k \<Rightarrow>
          (case findByIdAndDelete todoId st of
             Inr (None, st') \<Rightarrow> ((404, JMessage ''Todo not found''), [], st')
           | Inr (Some removedTodo, st') \<Rightarrow>
               ((200, JData ''Todo deleted successfully'' removedTodo), [], st')
           | Inl err \<Rightarrow> ((500, JThrown err), [], st)))"

text \<open>
  PUT and PATCH /todos/:todoId. Mongoose drops the fields of an update that are
  undefined, so both set the fields that are present; neither validates the due date,
  and one that has no cast fails inside the store call. Neither handler has an emit
  call.
\<close>

definition update_call ::
  "todo_model \<Rightarrow> id_arg \<Rightarrow> add_data \<Rightarrow> updates \<Rightarrow> server \<Rightarrow>
   response \<times> delivery list \<times> server" where
  "update_call Todo todoId b u st =
     (case (case d_dueDate b of
              None \<Rightarrow> findByIdAndUpdate Todo todoId u st
            | Some dd \<Rightarrow>
                (case castDate dd of
                   None \<Rightarrow> Inl CastError
                 | Some n \<Rightarrow> findByIdAndUpdate Todo todoId u st)) of
        Inr (None, st') \<Rightarrow> ((404, JMessage ''Todo not found''), [], st')
      | Inr (Some updatedTodo, st') \<Rightarrow>
          ((200, JData ''Todo updated successfully'' updatedTodo), [], st')
      | Inl err \<Rightarrow> ((500, JThrown err), [], st))"

definition put_todo ::
  "todo_model \<Rightarrow> id_arg \<Rightarrow> add_data \<Rightarrow> server \<Rightarrow> response \<times> delivery list \<times> server" where
  "put_todo Todo todoId body st =
     (let b = body\<lparr>d_title := Some (trim (case d_title body of None \<Rightarrow> [] | Some x \<Rightarrow> x))\<rparr>;
          errors = id_errors todoId @ title_errors b
                   @ (case d_complete b of
                        None \<Rightarrow> [''Complete must be a boolean value'']
                      | Some c \<Rightarrow> [])
                   @ priority_errors b
      in if errors \<noteq> [] then ((400, JErrors errors), [], st)
         else update_call Todo todoId b
                \<lparr>u_title = d_title b, u_description = d_description b,
                 u_complete = d_complete b,
                 u_priority = Some (or_str (d_priority b) ''medium''),
                 u_dueDate = (case d_dueDate b of None \<Rightarrow> None | Some dd \<Rightarrow> castDate dd),
                 u_updatedAt = Some (now st)\<rparr> st)"

definition patch_todo ::
  "todo_model \<Rightarrow> id_arg \<Rightarrow> add_data \<Rightarrow> server \<Rightarrow> response \<times> delivery list \<times> server" where
  "patch_todo Todo todoId body st =
     (let b = body\<lparr>d_title := (case d_title body of None \<Rightarrow> None | Some x \<Rightarrow> Some (trim x))\<rparr>;
          errors = id_errors todoId
                   @ (case d_title b of
                        None \<Rightarrow> []
                      | Some ti \<Rightarrow> if length ti < 3 \<or> 200 < length ti
                                   then [''Title must be between 3 and 200 characters'']
                                   else [])
                   @ priority_errors b
      in if errors \<noteq> [] then ((400, JErrors errors), [], st)
         else update_call Todo todoId b
                \<lparr>u_title = d_title b, u_description = d_description b,
                 u_complete = d_complete b, u_priority = d_priority b,
                 u_dueDate = (case d_dueDate b of None \<Rightarrow> None | Some dd \<Rightarrow> castDate dd),
                 u_updatedAt = Some (now st)\<rparr> st)"

text \<open>A server with one open session and an empty collection, and a schema that accepts
  every document.\<close>

definition one_session :: server where
  "one_session =
     \<lparr>connectedUsers = [(''10.0.0.3'', [''c''])], sockets = [(''c'', ''10.0.0.3'')],
      todos = [], nextId = 7, now = 100, dbUp = True\<rparr>"

definition any_schema :: todo_model where
  "any_schema = \<lparr>validate = (\<lambda>t. True), validateUpdate = (\<lambda>u. True)\<rparr>"

definition only_error :: "socket \<Rightarrow> delivery list \<Rightarrow> bool" where
  "only_error socket out =
     (case out of
        [(s, EvError m)] \<Rightarrow> s = fst socket
      | _ \<Rightarrow> False)"

definition sample_todo :: "nat \<Rightarrow> nat \<Rightarrow> todo" where
  "sample_todo k t =
     \<lparr>oid = k, title = Some ''task'', description = None, complete = False,
      priority = ''low'', dueDate = None, createdAt = t, updatedAt = t\<rparr>"

definition stocked :: server where
  "stocked =
     \<lparr>connectedUsers = [(''10.0.0.1'', [''s1'', ''s2''])],
      sockets = [(''s1'', ''10.0.0.1''), (''s2'', ''10.0.0.1'')],
      todos = [sample_todo 1 10, sample_todo 2 30, sample_todo 3 20],
      nextId = 4, now = 40, dbUp = True\<rparr>"

definition body_abc :: add_data where
  "body_abc =
     \<lparr>d_title = Some ''abc'', d_description = None, d_complete = None,
      d_priority = None, d_dueDate = None\<rparr>"

definition body_done :: add_data where
  "body_done =
     \<lparr>d_title = Some ''abc'', d_description = None, d_complete = Some True,
      d_priority = None, d_dueDate = None\<rparr>"

definition mark_done :: updates where
  "mark_done =
     \<lparr>u_title = None, u_description = None, u_complete = Some True,
      u_priority = None, u_dueDate = None, u_updatedAt = None\<rparr>"

definition added_abc :: todo where
  "added_abc =
     \<lparr>oid = 4, title = Some ''abc'', description = None, complete = False,
      priority = ''medium'', dueDate = None, createdAt = 40, updatedAt = 40\<rparr>"

definition first_todo :: "bool \<Rightarrow> todo" where
  "first_todo c =
     \<lparr>oid = 7, title = Some ''abc'', description = None, complete = c,
      priority = ''medium'', dueDate = None, createdAt = 100, updatedAt = 100\<rparr>"

section \<open>Properties of the registry\<close>

lemma registry_open_absent:
  "map_of cu a = None \<Longrightarrow> registry_open a s cu = AList.update a [s] cu"
  by (simp add: registry_open_def update_conv')

lemma registry_open_present:
  "map_of cu a = Some ids \<Longrightarrow> registry_open a s cu = AList.update a (ids @ [s]) cu"
  by (simp add: registry_open_def)

lemma sessions_open:
  "sessions (registry_open a s cu) b = (if b = a then sessions cu a @ [s] else sessions cu b)"
  by (cases "map_of cu a")
     (simp_all add: registry_open_absent registry_open_present sessions_def update_conv')

lemma keys_open:
  "fst ` set (registry_open a s cu) = insert a (fst ` set cu)"
  by (cases "map_of cu a")
     (simp_all add: registry_open_absent registry_open_present dom_update)

lemma distinct_open:
  "distinct (map fst cu) \<Longrightarrow> distinct (map fst (registry_open a s cu))"
  by (cases "map_of cu a")
     (simp_all add: registry_open_absent registry_open_present distinct_update)

lemma list_all_update:
  "list_all P al \<Longrightarrow> P (k, v) \<Longrightarrow> list_all P (AList.update k v al)"
  by (induction al) auto

lemma list_all_delete:
  "list_all P al \<Longrightarrow> list_all P (AList.delete k al)"
  by (induction al) auto

lemma inv_open: "registry_inv cu \<Longrightarrow> registry_inv (registry_open a s cu)"
  by (cases "map_of cu a")
     (simp_all add: registry_open_absent registry_open_present registry_inv_def list_all_update)

lemma registry_close_absent:
  "map_of cu a = None \<Longrightarrow> registry_close a s cu = cu"
  by (simp add: registry_close_def)

lemma registry_close_last:
  "map_of cu a = Some ids \<Longrightarrow> filter (\<lambda>i. i \<noteq> s) ids = [] \<Longrightarrow>
   registry_close a s cu = AList.delete a cu"
  by (simp add: registry_close_def delete_update_same)

lemma registry_close_more:
  "map_of cu a = Some ids \<Longrightarrow> filter (\<lambda>i. i \<noteq> s) ids \<noteq> [] \<Longrightarrow>
   registry_close a s cu = AList.update a (filter (\<lambda>i. i \<noteq> s) ids) cu"
  by (simp add: registry_close_def)

lemma sessions_close:
  "sessions (registry_close a s cu) b =
     (if b = a then filter (\<lambda>i. i \<noteq> s) (sessions cu a) else sessions cu b)"
proof (cases "map_of cu a")
  case None
  then show ?thesis by (simp add: registry_close_absent sessions_def)
next
  case (Some ids)
  show ?thesis
  proof (cases "filter (\<lambda>i. i \<noteq> s) ids = []")
    case True
    with Some show ?thesis
      by (simp add: registry_close_last sessions_def delete_conv')
  next
    case False
    with Some show ?thesis
      by (simp add: registry_close_more sessions_def update_conv')
  qed
qed

lemma inv_close: "registry_inv cu \<Longrightarrow> registry_inv (registry_close a s cu)"
proof (cases "map_of cu a")
  case None
  assume "registry_inv cu"
  with None show ?thesis by (simp add: registry_close_absent)
next
  case (Some ids)
  assume inv: "registry_inv cu"
  show ?thesis
  proof (cases "filter (\<lambda>i. i \<noteq> s) ids = []")
    case True
    with Some inv show ?thesis
      by (simp add: registry_close_last registry_inv_def list_all_delete)
  next
    case False
    with Some inv show ?thesis
      by (simp add: registry_close_more registry_inv_def list_all_update)
  qed
qed

lemma distinct_close:
  "distinct (map fst cu) \<Longrightarrow> distinct (map fst (registry_close a s cu))"
  by (cases "map_of cu a")
     (auto simp: registry_close_def Let_def distinct_update distinct_delete)

lemma inv_key_iff:
  "registry_inv cu \<Longrightarrow> (a \<in> fst ` set cu) = (sessions cu a \<noteq> [])"
proof (induction cu)
  case Nil
  then show ?case by (simp add: sessions_def)
next
  case (Cons p cu)
  then show ?case by (cases p) (auto simp: sessions_def registry_inv_def)
qed


section \<open>Reached states\<close>

lemma sessions_mem_iff:
  "distinct (map fst cu) \<Longrightarrow>
   (i \<in> set (sessions cu b)) = (\<exists>ids. (b, ids) \<in> set cu \<and> i \<in> set ids)"
  by (auto simp: sessions_def split: option.splits dest: map_of_SomeD)

lemma server_inv_iff:
  "server_inv st =
     (distinct (map fst (sockets st)) \<and>
      distinct (map fst (connectedUsers st)) \<and>
      registry_inv (connectedUsers st) \<and>
      (\<forall>s a. ((s, a) \<in> set (sockets st)) = (s \<in> set (sessions (connectedUsers st) a))))"
  unfolding server_inv_def list_all_iff
  by (auto simp: sessions_mem_iff) force+

lemma server_inv_startup: "server_inv (startup ts n t up)"
  by (simp add: server_inv_def startup_def registry_inv_def)

lemma server_inv_connect:
  assumes "server_inv st" and "connect s a st = Some (out, st')"
  shows "server_inv st'"
proof -
  from assms(2) have fresh: "s \<notin> fst ` set (sockets st)"
    and st': "st' = st\<lparr>sockets := sockets st @ [(s, a)],
                       connectedUsers := registry_open a s (connectedUsers st)\<rparr>"
    by (auto simp: connect_def on_connection_def Let_def split: if_splits)
  from assms(1) fresh show ?thesis
    unfolding server_inv_iff st'
    by (auto simp: distinct_open inv_open sessions_open image_iff)
qed

lemma map_of_sockets:
  "distinct (map fst socks) \<Longrightarrow> (map_of socks s = Some a) = ((s, a) \<in> set socks)"
  by (simp add: map_of_eq_Some_iff)

lemma server_inv_disconnect:
  assumes "server_inv st" and "disconnect s st = Some (out, st')"
  shows "server_inv st'"
proof -
  from assms(2) obtain a where a: "map_of (sockets st) s = Some a"
    and st': "st' = st\<lparr>sockets := filter (\<lambda>t. fst t \<noteq> s) (sockets st),
                       connectedUsers := registry_close a s (connectedUsers st)\<rparr>"
    by (auto simp: disconnect_def on_disconnect_def Let_def split: option.splits)
  from assms(1) have d: "distinct (map fst (sockets st))"
    by (simp add: server_inv_iff)
  from a d have mem: "(s, a) \<in> set (sockets st)"
    by (simp add: map_of_sockets)
  have uniq: "\<And>b. (s, b) \<in> set (sockets st) \<Longrightarrow> b = a"
    using d mem by (meson eq_key_imp_eq_value)
  from assms(1) show ?thesis
    unfolding server_inv_iff st'
    using uniq
    by (auto simp: distinct_close inv_close sessions_close distinct_map_filter)
qed

lemma server_inv_step:
  "server_inv st \<Longrightarrow> conn_step e st = Some (out, st') \<Longrightarrow> server_inv st'"
  by (cases e) (auto intro: server_inv_connect server_inv_disconnect)

lemma server_inv_run:
  "server_inv st \<Longrightarrow> run es st = Some st' \<Longrightarrow> server_inv st'"
proof (induction es arbitrary: st)
  case Nil
  then show ?case by simp
next
  case (Cons e es)
  then show ?case
    by (auto split: option.splits dest: server_inv_step)
qed

lemma count_open_addresses:
  assumes "server_inv st"
  shows "currentCount (connectedUsers st) = length (open_addresses st)"
proof -
  from assms have d: "distinct (map fst (connectedUsers st))"
    and ri: "registry_inv (connectedUsers st)"
    and link: "\<And>s a. ((s, a) \<in> set (sockets st)) = (s \<in> set (sessions (connectedUsers st) a))"
    by (simp_all add: server_inv_iff)
  have "fst ` set (connectedUsers st) = snd ` set (sockets st)"
  proof (intro set_eqI iffI)
    fix a assume "a \<in> fst ` set (connectedUsers st)"
    with ri have "sessions (connectedUsers st) a \<noteq> []"
      by (simp add: inv_key_iff)
    then obtain s where "s \<in> set (sessions (connectedUsers st) a)"
      by (cases "sessions (connectedUsers st) a") auto
    with link have "(s, a) \<in> set (sockets st)" by simp
    then show "a \<in> snd ` set (sockets st)" by force
  next
    fix a assume "a \<in> snd ` set (sockets st)"
    then obtain s where "(s, a) \<in> set (sockets st)" by auto
    with link have "sessions (connectedUsers st) a \<noteq> []" by auto
    with ri show "a \<in> fst ` set (connectedUsers st)"
      by (simp add: inv_key_iff)
  qed
  then have "card (set (map fst (connectedUsers st))) = card (set (map snd (sockets st)))"
    by simp
  moreover from d have "card (set (map fst (connectedUsers st))) = length (map fst (connectedUsers st))"
    by (rule distinct_card)
  ultimately show ?thesis
    by (simp add: currentCount_def open_addresses_def length_remdups_card_conv)
qed

lemma reachable_inv:
  "run es (startup ts n t up) = Some st \<Longrightarrow> server_inv st"
  by (rule server_inv_run [OF server_inv_startup])

text \<open>
  C2. In every state reached by a sequence of opens and closes, the count the server
  reports is the number of distinct addresses that have an open session. When two open
  sessions share an address it is below the number of open sessions, and when every
  open session comes from one address it is one.
\<close>

theorem currentCount_distinct_addresses:
  assumes "run es (startup ts n t up) = Some st"
  shows "currentCount (connectedUsers st) = length (open_addresses st) \<and>
         (\<not> distinct (map snd (sockets st)) \<longrightarrow>
            currentCount (connectedUsers st) < length (sockets st)) \<and>
         (sockets st \<noteq> [] \<and> list_all (\<lambda>r. snd r = a) (sockets st) \<longrightarrow>
            currentCount (connectedUsers st) = 1)"
proof -
  from assms have inv: "server_inv st" by (rule reachable_inv)
  then have eq: "currentCount (connectedUsers st) = length (open_addresses st)"
    by (rule count_open_addresses)
  have len: "length (open_addresses st) = card (set (map snd (sockets st)))"
    by (simp add: open_addresses_def length_remdups_card_conv)
  have lt: "currentCount (connectedUsers st) < length (sockets st)"
    if "\<not> distinct (map snd (sockets st))"
  proof -
    have "card (set (map snd (sockets st))) \<le> length (map snd (sockets st))"
      by (rule card_length)
    moreover have "card (set (map snd (sockets st))) \<noteq> length (map snd (sockets st))"
      using that card_distinct by blast
    ultimately show ?thesis using eq len by simp
  qed
  have one: "currentCount (connectedUsers st) = 1"
    if "sockets st \<noteq> []" and "list_all (\<lambda>r. snd r = a) (sockets st)"
  proof -
    from that have "set (map snd (sockets st)) = {a}"
      by (cases "sockets st") (auto simp: list_all_iff)
    with eq len show ?thesis by simp
  qed
  from eq lt one show ?thesis by blast
qed

theorem currentCount_distinct_addresses_witness:
  "run [Open ''s1'' ''10.0.0.1'', Open ''s2'' ''10.0.0.1''] (startup [] 0 0 True) = Some two_tabs \<and>
   \<not> distinct (map snd (sockets two_tabs)) \<and>
   sockets two_tabs \<noteq> [] \<and> list_all (\<lambda>r. snd r = ''10.0.0.1'') (sockets two_tabs) \<and>
   currentCount (connectedUsers two_tabs) = length (open_addresses two_tabs) \<and>
   currentCount (connectedUsers two_tabs) < length (sockets two_tabs) \<and>
   currentCount (connectedUsers two_tabs) = 1"
proof -
  have r: "run [Open ''s1'' ''10.0.0.1'', Open ''s2'' ''10.0.0.1''] (startup [] 0 0 True) = Some two_tabs"
    by (simp add: startup_def two_tabs_def connect_def on_connection_def registry_open_def
        currentCount_def Let_def)
  show ?thesis
    using r currentCount_distinct_addresses [OF r, of "''10.0.0.1''"]
    by (simp add: two_tabs_def)
qed

lemma inv_reg_run: "registry_inv cu \<Longrightarrow> registry_inv (reg_run ops cu)"
  unfolding reg_run_def
proof (induction ops arbitrary: cu)
  case Nil
  then show ?case by simp
next
  case (Cons x ops)
  then show ?case by (cases x) (simp_all add: inv_open inv_close)
qed



lemma inv_lookup_nonempty:
  "registry_inv cu \<Longrightarrow> map_of cu a = Some ids \<Longrightarrow> ids \<noteq> []"
  by (fastforce simp: registry_inv_def list_all_iff dest: map_of_SomeD)

lemma registry_close_idem:
  "registry_close a s (registry_close a s cu) = registry_close a s cu"
proof (cases "map_of cu a")
  case None
  then show ?thesis by (simp add: registry_close_absent)
next
  case (Some ids)
  show ?thesis
  proof (cases "filter (\<lambda>i. i \<noteq> s) ids = []")
    case True
    with Some show ?thesis
      by (simp add: registry_close_last registry_close_absent delete_conv')
  next
    case False
    with Some have e: "registry_close a s cu = AList.update a (filter (\<lambda>i. i \<noteq> s) ids) cu"
      by (simp add: registry_close_more)
    have m: "map_of (AList.update a (filter (\<lambda>i. i \<noteq> s) ids) cu) a
               = Some (filter (\<lambda>i. i \<noteq> s) ids)"
      by (simp add: update_conv')
    from False show ?thesis
      unfolding e by (simp add: registry_close_more [OF m])
  qed
qed

lemma registry_close_noop:
  assumes "registry_inv cu" and "s \<notin> set (sessions cu a)"
  shows "registry_close a s cu = cu"
proof (cases "map_of cu a")
  case None
  then show ?thesis by (simp add: registry_close_absent)
next
  case (Some ids)
  with assms(2) have f: "filter (\<lambda>i. i \<noteq> s) ids = ids"
    by (auto simp: sessions_def filter_id_conv)
  from assms(1) Some have "ids \<noteq> []" by (rule inv_lookup_nonempty)
  with Some f show ?thesis
    by (simp add: registry_close_more update_triv)
qed

lemma reg_run_inv: "registry_inv (reg_run ops [])"
  by (rule inv_reg_run) (simp add: registry_inv_def)

text \<open>
  C6. Close is idempotent: in every registry state a second close of the same session
  leaves the registry and the count as the first close left them, and in every state
  the registry reaches by opens and closes, a close of a session that is not registered
  leaves the registry and the count unchanged.
\<close>

theorem close_idempotent:
  "registry_close a s (registry_close a s cu) = registry_close a s cu \<and>
   currentCount (registry_close a s (registry_close a s cu))
     = currentCount (registry_close a s cu) \<and>
   (s \<notin> set (sessions (reg_run ops []) a) \<longrightarrow>
      registry_close a s (reg_run ops []) = reg_run ops [] \<and>
      currentCount (registry_close a s (reg_run ops [])) = currentCount (reg_run ops []))"
  by (simp add: registry_close_idem registry_close_noop [OF reg_run_inv])

theorem close_idempotent_witness:
  "reg_run [ROpen ''10.0.0.1'' ''s1''] [] = [(''10.0.0.1'', [''s1''])] \<and>
   ''s2'' \<notin> set (sessions [(''10.0.0.1'', [''s1''])] ''10.0.0.1'') \<and>
   registry_close ''10.0.0.1'' ''s2'' [(''10.0.0.1'', [''s1''])] = [(''10.0.0.1'', [''s1''])] \<and>
   registry_close ''10.0.0.1'' ''s1'' (registry_close ''10.0.0.1'' ''s1'' [(''10.0.0.1'', [''s1''])])
     = registry_close ''10.0.0.1'' ''s1'' [(''10.0.0.1'', [''s1''])]"
proof -
  have r: "reg_run [ROpen ''10.0.0.1'' ''s1''] [] = [(''10.0.0.1'', [''s1''])]"
    by (simp add: reg_run_def registry_open_def)
  have n: "''s2'' \<notin> set (sessions [(''10.0.0.1'', [''s1''])] ''10.0.0.1'')"
    by (simp add: sessions_def)
  show ?thesis
    using r n
      close_idempotent [of "''10.0.0.1''" "''s2''" "[(''10.0.0.1'', [''s1''])]"
                           "[ROpen ''10.0.0.1'' ''s1'']"]
      close_idempotent [of "''10.0.0.1''" "''s1''" "[(''10.0.0.1'', [''s1''])]" "[]"]
    by simp
qed

text \<open>
  The legacy disconnect handler has no guard, and needs none under the events
  Socket.io delivers: the address of a connected socket always has an entry that holds
  the socket's id, so no run raises.
\<close>

lemma indexOf_Some:
  "indexOf l s = Some i \<Longrightarrow> i < length l \<and> l ! i = Some s"
proof (induction l arbitrary: i)
  case Nil
  then show ?case by simp
next
  case (Cons x l)
  then show ?case by (auto split: if_splits option.splits)
qed

lemma indexOf_None: "indexOf l s = None \<Longrightarrow> Some s \<notin> set l"
  by (induction l) (auto split: if_splits option.splits)

lemma other_id_survives:
  assumes "Some t \<in> set l" and "t \<noteq> s" and "indexOf l s = Some i"
  shows "Some t \<in> set (l[i := None])"
proof -
  from assms(3) have i: "i < length l" "l ! i = Some s" by (simp_all add: indexOf_Some)
  from assms(1) obtain j where j: "j < length l" "l ! j = Some t"
    by (auto simp: in_set_conv_nth)
  with i assms(2) have "j \<noteq> i" by auto
  with j have "j < length (l[i := None])" "l[i := None] ! j = Some t" by simp_all
  then show ?thesis by (metis nth_mem)
qed

lemma legacy_inv_iff:
  "legacy_inv (al, socks) =
     (distinct (map fst socks) \<and>
      (\<forall>t b. (t, b) \<in> set socks \<longrightarrow> (\<exists>l. map_of al b = Some l \<and> Some t \<in> set l)))"
proof -
  have "(Some (fst p) \<in> set (case map_of al (snd p) of None \<Rightarrow> [] | Some l \<Rightarrow> l))
          = (\<exists>l. map_of al (snd p) = Some l \<and> Some (fst p) \<in> set l)" for p
    by (cases "map_of al (snd p)") simp_all
  then show ?thesis
    unfolding legacy_inv_def list_all_iff by force
qed

lemma legacy_close_open_session:
  assumes "legacy_inv (al, socks)" and "(s, a) \<in> set socks"
  shows "\<exists>al'. legacy_close a s al = Inr al' \<and>
               legacy_inv (al', filter (\<lambda>t. fst t \<noteq> s) socks)"
proof -
  from assms have d: "distinct (map fst socks)"
    and link: "\<And>t b. (t, b) \<in> set socks \<Longrightarrow>
                 \<exists>l. map_of al b = Some l \<and> Some t \<in> set l"
    by (simp_all add: legacy_inv_iff)
  from link [OF assms(2)] obtain l where l: "map_of al a = Some l" "Some s \<in> set l" by blast
  then obtain i where i: "indexOf l s = Some i"
    using indexOf_None by (cases "indexOf l s") auto
  let ?l' = "l[i := None]"
  let ?al1 = "AList.update a ?l' al"
  let ?al' = "if length (filter (\<lambda>x. x \<noteq> None) ?l') = 0 then AList.delete a ?al1 else ?al1"
  from l i have c: "legacy_close a s al = Inr ?al'"
    by (simp add: legacy_close_def)
  have "\<exists>l2. map_of ?al' b = Some l2 \<and> Some t \<in> set l2"
    if m: "(t, b) \<in> set socks" and ne: "t \<noteq> s" for t b
  proof (cases "b = a")
    case True
    from link [OF m] True l have "Some t \<in> set l" by simp
    then have in': "Some t \<in> set ?l'" using ne i by (rule other_id_survives)
    then have "filter (\<lambda>x. x \<noteq> None) ?l' \<noteq> []"
      by (auto simp: filter_empty_conv)
    with in' True show ?thesis by (simp add: update_conv')
  next
    case False
    with link [OF m] show ?thesis by (simp add: update_conv' delete_conv')
  qed
  then have "legacy_inv (?al', filter (\<lambda>t. fst t \<noteq> s) socks)"
    using d unfolding legacy_inv_iff by (auto simp: distinct_map_filter)
  with c show ?thesis by blast
qed

lemma legacy_connect_inv:
  assumes "legacy_inv st" and "legacy_connect s a st = Some st'"
  shows "legacy_inv st'"
proof -
  obtain al socks where st: "st = (al, socks)" by (cases st)
  from assms(2) st have fresh: "s \<notin> fst ` set socks"
    and st': "st' = (legacy_open a s al, socks @ [(s, a)])"
    by (auto simp: legacy_connect_def split: if_splits)
  from assms(1) st have d: "distinct (map fst socks)"
    and link: "\<And>t b. (t, b) \<in> set socks \<Longrightarrow>
                 \<exists>l. map_of al b = Some l \<and> Some t \<in> set l"
    by (simp_all add: legacy_inv_iff)
  have new: "\<exists>l. map_of (legacy_open a s al) a = Some l \<and> Some s \<in> set l"
    by (cases "map_of al a") (simp_all add: legacy_open_def update_conv')
  have old: "\<exists>l. map_of (legacy_open a s al) b = Some l \<and> Some t \<in> set l"
    if "(t, b) \<in> set socks" for t b
    using link [OF that]
    by (cases "map_of al a") (auto simp: legacy_open_def update_conv')
  from d fresh new old show ?thesis
    unfolding st' legacy_inv_iff by (auto simp: image_iff)
qed

lemma legacy_run_never_raises:
  "legacy_inv st \<Longrightarrow> legacy_run es st \<noteq> Some (Inl err)"
proof (induction es arbitrary: st)
  case Nil
  then show ?case by simp
next
  case (Cons e es)
  show ?case
  proof (cases e)
    case (Open s a)
    with Cons show ?thesis
      by (auto split: option.splits dest: legacy_connect_inv)
  next
    case (Close s)
    obtain al socks where st: "st = (al, socks)" by (cases st)
    show ?thesis
    proof (cases "map_of socks s")
      case None
      with Close st show ?thesis by (simp add: legacy_disconnect_def)
    next
      case (Some a)
      then have "(s, a) \<in> set socks" by (rule map_of_SomeD)
      with Cons.prems st obtain al' where
        c: "legacy_close a s al = Inr al'"
        and i: "legacy_inv (al', filter (\<lambda>t. fst t \<noteq> s) socks)"
        using legacy_close_open_session by blast
      from Cons.IH [OF i] Close st Some c show ?thesis
        by (simp add: legacy_disconnect_def)
    qed
  qed
qed

lemma legacy_reachable_never_raises:
  "legacy_run es ([], []) \<noteq> Some (Inl err)"
  by (rule legacy_run_never_raises) (simp add: legacy_inv_def)

lemma received_io_emit:
  "distinct (map fst conns) \<Longrightarrow> r \<in> set conns \<Longrightarrow> received (fst r) (io_emit conns e) = [e]"
proof (induction conns)
  case Nil
  then show ?case by simp
next
  case (Cons c conns)
  then show ?case
    by (auto simp: received_def io_emit_def filter_empty_conv image_iff)
qed

lemma open_close_registry:
  assumes "registry_inv cu" and "s \<notin> set (sessions cu a)"
  shows "registry_close a s (registry_open a s cu) = cu"
proof (cases "map_of cu a")
  case None
  then have "a \<notin> fst ` set cu" by (simp add: map_of_eq_None_iff)
  with None show ?thesis
    by (simp add: registry_open_absent registry_close_def update_conv' delete_update_same)
next
  case (Some ids)
  from assms(1) Some have ne: "ids \<noteq> []" by (rule inv_lookup_nonempty)
  from assms(2) Some have f: "filter (\<lambda>i. i \<noteq> s) ids = ids"
    by (auto simp: sessions_def filter_id_conv)
  from Some ne f show ?thesis
    by (simp add: registry_open_present registry_close_def update_conv' update_triv)
qed

text \<open>
  C7. From a reached state, a session with a fresh id that opens and then closes
  leaves the server as it was, count included; the close sends the count from before
  the open to every remaining session, and each of them receives exactly that one event.
\<close>

theorem open_then_close_restores_count:
  assumes "run es (startup ts n t up) = Some st" and "s \<notin> set (map fst (sockets st))"
  shows "open_then_close s a st =
           Some (io_emit (sockets st) (EvCount (currentCount (connectedUsers st))), st) \<and>
         list_all (\<lambda>r. received (fst r)
                         (io_emit (sockets st) (EvCount (currentCount (connectedUsers st))))
                       = [EvCount (currentCount (connectedUsers st))]) (sockets st)"
proof -
  from assms(1) have inv: "server_inv st" by (rule reachable_inv)
  then have d: "distinct (map fst (sockets st))" and ri: "registry_inv (connectedUsers st)"
    and link: "\<And>s a. ((s, a) \<in> set (sockets st)) = (s \<in> set (sessions (connectedUsers st) a))"
    by (simp_all add: server_inv_iff)
  from assms(2) link have nin: "s \<notin> set (sessions (connectedUsers st) a)"
    by (metis fst_conv image_eqI set_map)
  from assms(2) have flt: "filter (\<lambda>t. fst t \<noteq> s) (sockets st) = sockets st"
    by (auto simp: filter_id_conv)
  have m: "map_of (sockets st @ [(s, a)]) s = Some a"
    using assms(2) by (simp add: map_add_Some_iff map_of_eq_None_iff)
  have "open_then_close s a st =
           Some (io_emit (sockets st) (EvCount (currentCount (connectedUsers st))), st)"
    using assms(2) m flt open_close_registry [OF ri nin]
    by (simp add: open_then_close_def connect_def on_connection_def disconnect_def
        on_disconnect_def Let_def)
  moreover have "list_all (\<lambda>r. received (fst r)
                         (io_emit (sockets st) (EvCount (currentCount (connectedUsers st))))
                       = [EvCount (currentCount (connectedUsers st))]) (sockets st)"
    using d by (simp add: list_all_iff received_io_emit)
  ultimately show ?thesis by simp
qed

theorem open_then_close_restores_count_witness:
  "run [Open ''s1'' ''10.0.0.1'', Open ''s2'' ''10.0.0.1''] (startup [] 0 0 True) = Some two_tabs \<and>
   ''s3'' \<notin> set (map fst (sockets two_tabs)) \<and>
   open_then_close ''s3'' ''10.0.0.2'' two_tabs =
     Some ([(''s1'', EvCount 1), (''s2'', EvCount 1)], two_tabs)"
proof -
  have r: "run [Open ''s1'' ''10.0.0.1'', Open ''s2'' ''10.0.0.1''] (startup [] 0 0 True) = Some two_tabs"
    by (simp add: startup_def two_tabs_def connect_def on_connection_def registry_open_def
        currentCount_def Let_def)
  have f: "''s3'' \<notin> set (map fst (sockets two_tabs))"
    by (simp add: two_tabs_def)
  have c: "currentCount (connectedUsers two_tabs) = 1"
       "io_emit (sockets two_tabs) (EvCount 1) = [(''s1'', EvCount 1), (''s2'', EvCount 1)]"
    by (simp_all add: two_tabs_def currentCount_def io_emit_def)
  show ?thesis
    using r f open_then_close_restores_count [OF r f, of "''10.0.0.2''"]
    unfolding c by simp
qed

section \<open>Deliveries of the session handlers\<close>

lemma filter_same_id:
  "distinct (map fst conns) \<Longrightarrow> c \<in> set conns \<Longrightarrow>
   filter (\<lambda>t. fst t = fst c) conns = [c]"
proof (induction conns)
  case Nil
  then show ?case by simp
next
  case (Cons x conns)
  then show ?case
    by (auto simp: filter_empty_conv image_iff)
qed

lemma received_map:
  "received s (map (\<lambda>t. (fst t, e)) conns) = map (\<lambda>t. e) (filter (\<lambda>t. fst t = s) conns)"
  by (induction conns) (simp_all add: received_def)

lemma received_append:
  "received s (xs @ ys) = received s xs @ received s ys"
  by (simp add: received_def)

lemma received_ack_broadcast:
  assumes "distinct (map fst conns)" and "c \<in> set conns"
  shows "received (fst c) (socket_emit socket e @ broadcast_emit socket conns e) = [e]"
proof (cases "fst c = fst socket")
  case True
  have own: "received (fst c) (socket_emit socket e) = [e]"
    using True by (simp add: received_def socket_emit_def)
  have "filter (\<lambda>t. fst t = fst socket) (filter (\<lambda>t. fst t \<noteq> fst socket) conns) = []"
    by (simp add: filter_empty_conv)
  with True have "received (fst c) (broadcast_emit socket conns e) = []"
    by (simp add: broadcast_emit_def received_map)
  with own show ?thesis by (simp add: received_append)
next
  case False
  have own: "received (fst c) (socket_emit socket e) = []"
    using False by (simp add: received_def socket_emit_def)
  have "filter (\<lambda>t. fst t = fst c) (filter (\<lambda>t. fst t \<noteq> fst socket) conns)
          = filter (\<lambda>t. fst t = fst c) conns"
    using False by (induction conns) auto
  with assms have "received (fst c) (broadcast_emit socket conns e) = [e]"
    by (simp add: broadcast_emit_def received_map filter_same_id)
  with own show ?thesis by (simp add: received_append)
qed

lemma broadcast_excludes_origin:
  "list_all (\<lambda>d. fst d \<noteq> fst socket) (broadcast_emit socket conns e)"
  by (simp add: broadcast_emit_def list_all_iff)

lemma save_Inr:
  "save Todo doc st = Inr (r, st') \<Longrightarrow>
   r = doc\<lparr>oid := nextId st, createdAt := now st, updatedAt := now st\<rparr> \<and>
   st' = st\<lparr>todos := todos st @ [r], nextId := Suc (nextId st)\<rparr>"
  by (auto simp: save_def Let_def split: if_splits)

lemma on_add_success:
  "save Todo (add_document d) st = Inr (r, st') \<Longrightarrow>
   on_add Todo socket (Some d) st =
     (socket_emit socket (EvAdded r) @ broadcast_emit socket (sockets st) (EvAdded r), st')"
  by (frule save_Inr) (simp add: on_add_def)

lemma on_add_failure:
  "save Todo (add_document d) st = Inl err \<Longrightarrow>
   on_add Todo socket (Some d) st = (socket_emit socket (EvError ''Failed to create todo''), st)"
  by (simp add: on_add_def)

lemma update_sockets:
  "findByIdAndUpdate Todo i u st = Inr (found, st') \<Longrightarrow> sockets st' = sockets st"
  by (auto simp: findByIdAndUpdate_def Let_def split: id_arg.splits if_splits option.splits)

lemma delete_sockets:
  "findByIdAndDelete i st = Inr (found, st') \<Longrightarrow> sockets st' = sockets st"
  by (auto simp: findByIdAndDelete_def split: id_arg.splits if_splits option.splits)

lemma on_update_success:
  "findByIdAndUpdate Todo i u st = Inr (Some r, st') \<Longrightarrow>
   on_update Todo socket (Some \<lparr>upd_id = i, upd_updates = u\<rparr>) st =
     (socket_emit socket (EvUpdated r) @ broadcast_emit socket (sockets st) (EvUpdated r), st')"
  by (frule update_sockets) (simp add: on_update_def)

lemma on_delete_success:
  "findByIdAndDelete (ObjectId k) st = Inr (Some r, st') \<Longrightarrow>
   on_delete socket (Some (ObjectId k)) st =
     (socket_emit socket (EvDeleted k) @ broadcast_emit socket (sockets st) (EvDeleted k), st')"
  by (frule delete_sockets) (simp add: on_delete_def)

lemma reachable_distinct:
  "run es (startup ts n t up) = Some st \<Longrightarrow> distinct (map fst (sockets st))"
  by (drule reachable_inv) (simp add: server_inv_def)

text \<open>
  C4. In a reached state, when an add, update or delete sent by an open session
  succeeds in the store, the sender receives exactly one event, the acknowledgment,
  and every open session receives exactly one event of the mutation; the broadcast
  never addresses the sender.
\<close>

theorem session_mutation_one_event_each:
  assumes "run es (startup ts n t up) = Some st"
    and "socket \<in> set (sockets st)" and "c \<in> set (sockets st)"
  shows "(save Todo (add_document d) st = Inr (r1, st1) \<longrightarrow>
            received (fst socket) (fst (on_add Todo socket (Some d) st)) = [EvAdded r1] \<and>
            received (fst c) (fst (on_add Todo socket (Some d) st)) = [EvAdded r1]) \<and>
         (findByIdAndUpdate Todo i u st = Inr (Some r2, st2) \<longrightarrow>
            received (fst socket)
              (fst (on_update Todo socket (Some \<lparr>upd_id = i, upd_updates = u\<rparr>) st))
              = [EvUpdated r2] \<and>
            received (fst c)
              (fst (on_update Todo socket (Some \<lparr>upd_id = i, upd_updates = u\<rparr>) st))
              = [EvUpdated r2]) \<and>
         (findByIdAndDelete (ObjectId k) st = Inr (Some r3, st3) \<longrightarrow>
            received (fst socket) (fst (on_delete socket (Some (ObjectId k)) st))
              = [EvDeleted k] \<and>
            received (fst c) (fst (on_delete socket (Some (ObjectId k)) st))
              = [EvDeleted k]) \<and>
         list_all (\<lambda>d. fst d \<noteq> fst socket) (broadcast_emit socket (sockets st) e)"
proof -
  from assms(1) have d: "distinct (map fst (sockets st))" by (rule reachable_distinct)
  note rb = received_ack_broadcast [OF d]
  show ?thesis
    using rb [OF assms(2)] rb [OF assms(3)]
    by (simp add: on_add_success on_update_success on_delete_success
        broadcast_excludes_origin)
qed

lemma stocked_reached:
  "run [Open ''s1'' ''10.0.0.1'', Open ''s2'' ''10.0.0.1'']
     (startup [sample_todo 1 10, sample_todo 2 30, sample_todo 3 20] 4 40 True) = Some stocked"
  by (simp add: startup_def stocked_def connect_def on_connection_def registry_open_def
      currentCount_def Let_def)

lemma stocked_save:
  "save any_schema (add_document body_abc) stocked
     = Inr (added_abc, stocked\<lparr>todos := todos stocked @ [added_abc], nextId := 5\<rparr>)"
  by (simp add: save_def any_schema_def add_document_def body_abc_def stocked_def
      added_abc_def new_Todo_def or_str_def Let_def)

lemma stocked_update:
  "findByIdAndUpdate any_schema (ObjectId 2) mark_done stocked
     = Inr (Some ((sample_todo 2 30)\<lparr>complete := True, updatedAt := 40\<rparr>),
            stocked\<lparr>todos := [sample_todo 1 10, (sample_todo 2 30)\<lparr>complete := True, updatedAt := 40\<rparr>,
                               sample_todo 3 20]\<rparr>)"
  by (simp add: findByIdAndUpdate_def any_schema_def mark_done_def stocked_def
      findById_def sample_todo_def set_fields_def Let_def)

lemma stocked_delete:
  "findByIdAndDelete (ObjectId 2) stocked
     = Inr (Some (sample_todo 2 30),
            stocked\<lparr>todos := [sample_todo 1 10, sample_todo 3 20]\<rparr>)"
  by (simp add: findByIdAndDelete_def stocked_def findById_def sample_todo_def)

theorem session_mutation_one_event_each_witness:
  "run [Open ''s1'' ''10.0.0.1'', Open ''s2'' ''10.0.0.1'']
     (startup [sample_todo 1 10, sample_todo 2 30, sample_todo 3 20] 4 40 True) = Some stocked \<and>
   (''s1'', ''10.0.0.1'') \<in> set (sockets stocked) \<and>
   (''s2'', ''10.0.0.1'') \<in> set (sockets stocked) \<and>
   save any_schema (add_document body_abc) stocked
     = Inr (added_abc, stocked\<lparr>todos := todos stocked @ [added_abc], nextId := 5\<rparr>) \<and>
   findByIdAndUpdate any_schema (ObjectId 2) mark_done stocked
     = Inr (Some ((sample_todo 2 30)\<lparr>complete := True, updatedAt := 40\<rparr>),
            stocked\<lparr>todos := [sample_todo 1 10, (sample_todo 2 30)\<lparr>complete := True, updatedAt := 40\<rparr>,
                               sample_todo 3 20]\<rparr>) \<and>
   findByIdAndDelete (ObjectId 2) stocked
     = Inr (Some (sample_todo 2 30),
            stocked\<lparr>todos := [sample_todo 1 10, sample_todo 3 20]\<rparr>) \<and>
   received ''s1'' (fst (on_add any_schema (''s1'', ''10.0.0.1'') (Some body_abc) stocked))
     = [EvAdded added_abc] \<and>
   received ''s2'' (fst (on_add any_schema (''s1'', ''10.0.0.1'') (Some body_abc) stocked))
     = [EvAdded added_abc] \<and>
   received ''s1'' (fst (on_update any_schema (''s1'', ''10.0.0.1'')
       (Some \<lparr>upd_id = ObjectId 2, upd_updates = mark_done\<rparr>) stocked))
     = [EvUpdated ((sample_todo 2 30)\<lparr>complete := True, updatedAt := 40\<rparr>)] \<and>
   received ''s2'' (fst (on_update any_schema (''s1'', ''10.0.0.1'')
       (Some \<lparr>upd_id = ObjectId 2, upd_updates = mark_done\<rparr>) stocked))
     = [EvUpdated ((sample_todo 2 30)\<lparr>complete := True, updatedAt := 40\<rparr>)] \<and>
   received ''s1'' (fst (on_delete (''s1'', ''10.0.0.1'') (Some (ObjectId 2)) stocked))
     = [EvDeleted 2] \<and>
   received ''s2'' (fst (on_delete (''s1'', ''10.0.0.1'') (Some (ObjectId 2)) stocked))
     = [EvDeleted 2]"
proof -
  have m1: "(''s1'', ''10.0.0.1'') \<in> set (sockets stocked)"
    and m2: "(''s2'', ''10.0.0.1'') \<in> set (sockets stocked)"
    by (simp_all add: stocked_def)
  show ?thesis
    using stocked_reached m1 m2 stocked_save stocked_update stocked_delete
      session_mutation_one_event_each [OF stocked_reached m1 m2,
        of any_schema body_abc added_abc
           "stocked\<lparr>todos := todos stocked @ [added_abc], nextId := 5\<rparr>"
           "ObjectId 2" mark_done "(sample_todo 2 30)\<lparr>complete := True, updatedAt := 40\<rparr>"
           "stocked\<lparr>todos := [sample_todo 1 10, (sample_todo 2 30)\<lparr>complete := True, updatedAt := 40\<rparr>,
                               sample_todo 3 20]\<rparr>"
           2 "sample_todo 2 30"
           "stocked\<lparr>todos := [sample_todo 1 10, sample_todo 3 20]\<rparr>"]
    by simp
qed

text \<open>
  C8. When the store accepts a create sent by session a, the acknowledgment to a and
  the broadcast to any other open session b carry the same saved record, which has the
  generated id and is the record the store now ends with. When the store rejects the
  write, no created event is built: the sender alone receives an error and the server
  is unchanged.
\<close>

theorem create_ack_and_broadcast_same_record:
  assumes "run es (startup ts n t up) = Some st"
    and "a \<in> set (sockets st)" and "b \<in> set (sockets st)"
  shows "(save Todo (add_document d) st = Inr (r, st') \<longrightarrow>
            on_add Todo a (Some d) st =
              (socket_emit a (EvAdded r) @ broadcast_emit a (sockets st) (EvAdded r), st') \<and>
            received (fst a) (fst (on_add Todo a (Some d) st)) = [EvAdded r] \<and>
            received (fst b) (fst (on_add Todo a (Some d) st)) = [EvAdded r] \<and>
            oid r = nextId st \<and>
            todos st' = todos st @ [r]) \<and>
         (save Todo (add_document d) st = Inl err \<longrightarrow>
            on_add Todo a (Some d) st = ([(fst a, EvError ''Failed to create todo'')], st))"
proof -
  from assms(1) have d: "distinct (map fst (sockets st))" by (rule reachable_distinct)
  note rb = received_ack_broadcast [OF d]
  have ok: "on_add Todo a (Some d) st =
              (socket_emit a (EvAdded r) @ broadcast_emit a (sockets st) (EvAdded r), st') \<and>
            received (fst a) (fst (on_add Todo a (Some d) st)) = [EvAdded r] \<and>
            received (fst b) (fst (on_add Todo a (Some d) st)) = [EvAdded r] \<and>
            oid r = nextId st \<and>
            todos st' = todos st @ [r]"
    if s: "save Todo (add_document d) st = Inr (r, st')"
  proof -
    from s have "r = (add_document d)\<lparr>oid := nextId st, createdAt := now st, updatedAt := now st\<rparr>"
      and "st' = st\<lparr>todos := todos st @ [r], nextId := Suc (nextId st)\<rparr>"
      by (simp_all add: save_Inr)
    then have "oid r = nextId st" and "todos st' = todos st @ [r]" by simp_all
    with s rb [OF assms(2)] rb [OF assms(3)] show ?thesis
      by (simp add: on_add_success)
  qed
  have bad: "on_add Todo a (Some d) st = ([(fst a, EvError ''Failed to create todo'')], st)"
    if "save Todo (add_document d) st = Inl err"
    using that by (simp add: on_add_failure socket_emit_def)
  from ok bad show ?thesis by blast
qed

lemma offline_reached:
  "run [Open ''s1'' ''10.0.0.1'', Open ''s2'' ''10.0.0.1'']
     (startup [sample_todo 1 10, sample_todo 2 30, sample_todo 3 20] 4 40 False)
     = Some (stocked\<lparr>dbUp := False\<rparr>)"
  by (simp add: startup_def stocked_def connect_def on_connection_def registry_open_def
      currentCount_def Let_def)

theorem create_ack_and_broadcast_same_record_witness:
  "run [Open ''s1'' ''10.0.0.1'', Open ''s2'' ''10.0.0.1'']
     (startup [sample_todo 1 10, sample_todo 2 30, sample_todo 3 20] 4 40 True) = Some stocked \<and>
   (''s1'', ''10.0.0.1'') \<in> set (sockets stocked) \<and>
   (''s2'', ''10.0.0.1'') \<in> set (sockets stocked) \<and>
   save any_schema (add_document body_abc) stocked
     = Inr (added_abc, stocked\<lparr>todos := todos stocked @ [added_abc], nextId := 5\<rparr>) \<and>
   on_add any_schema (''s1'', ''10.0.0.1'') (Some body_abc) stocked
     = ([(''s1'', EvAdded added_abc), (''s2'', EvAdded added_abc)],
        stocked\<lparr>todos := todos stocked @ [added_abc], nextId := 5\<rparr>) \<and>
   received ''s1'' (fst (on_add any_schema (''s1'', ''10.0.0.1'') (Some body_abc) stocked))
     = [EvAdded added_abc] \<and>
   received ''s2'' (fst (on_add any_schema (''s1'', ''10.0.0.1'') (Some body_abc) stocked))
     = [EvAdded added_abc] \<and>
   oid added_abc = nextId stocked \<and>
   run [Open ''s1'' ''10.0.0.1'', Open ''s2'' ''10.0.0.1'']
     (startup [sample_todo 1 10, sample_todo 2 30, sample_todo 3 20] 4 40 False)
     = Some (stocked\<lparr>dbUp := False\<rparr>) \<and>
   save any_schema (add_document body_abc) (stocked\<lparr>dbUp := False\<rparr>) = Inl StoreError \<and>
   on_add any_schema (''s1'', ''10.0.0.1'') (Some body_abc) (stocked\<lparr>dbUp := False\<rparr>)
     = ([(''s1'', EvError ''Failed to create todo'')], stocked\<lparr>dbUp := False\<rparr>)"
proof -
  have m1: "(''s1'', ''10.0.0.1'') \<in> set (sockets stocked)"
    and m2: "(''s2'', ''10.0.0.1'') \<in> set (sockets stocked)"
    and n1: "(''s1'', ''10.0.0.1'') \<in> set (sockets (stocked\<lparr>dbUp := False\<rparr>))"
    and n2: "(''s2'', ''10.0.0.1'') \<in> set (sockets (stocked\<lparr>dbUp := False\<rparr>))"
    by (simp_all add: stocked_def)
  have off: "save any_schema (add_document body_abc) (stocked\<lparr>dbUp := False\<rparr>) = Inl StoreError"
    by (simp add: save_def any_schema_def)
  have bc: "socket_emit (''s1'', ''10.0.0.1'') (EvAdded added_abc)
              @ broadcast_emit (''s1'', ''10.0.0.1'') (sockets stocked) (EvAdded added_abc)
            = [(''s1'', EvAdded added_abc), (''s2'', EvAdded added_abc)]"
    by (simp add: socket_emit_def broadcast_emit_def stocked_def)
  have nid: "nextId stocked = 4" "oid added_abc = 4"
    by (simp_all add: stocked_def added_abc_def)
  show ?thesis
    using stocked_reached m1 m2 stocked_save offline_reached off
      create_ack_and_broadcast_same_record [OF stocked_reached m1 m2,
        of any_schema body_abc added_abc
           "stocked\<lparr>todos := todos stocked @ [added_abc], nextId := 5\<rparr>"]
      create_ack_and_broadcast_same_record [OF offline_reached n1 n2,
        of any_schema body_abc _ _ StoreError]
    by (simp add: bc nid received_def)
qed

lemma update_missing:
  assumes "names_no_record i st"
  shows "on_update Todo socket (Some \<lparr>upd_id = i, upd_updates = u\<rparr>) st
           = (socket_emit socket
                (EvError (if i \<noteq> NotObjectId \<and> validateUpdate Todo u \<and> dbUp st
                          then ''Todo not found'' else ''Failed to update todo'')), st)"
  using assms
  by (cases i) (simp_all add: names_no_record_def on_update_def findByIdAndUpdate_def)

lemma delete_missing:
  assumes "names_no_record i st"
  shows "on_delete socket (Some i) st
           = (socket_emit socket
                (EvError (if i \<noteq> NotObjectId \<and> dbUp st
                          then ''Todo not found'' else ''Failed to delete todo'')), st)"
  using assms
  by (cases i) (simp_all add: names_no_record_def on_delete_def findByIdAndDelete_def)

text \<open>
  C5. An update or delete whose id names no record delivers exactly one error event,
  to the sender, and nothing to anyone else, and leaves the server unchanged. When the
  id is well formed, the update passes validation and the database is up, the message
  is that the todo was not found.
\<close>

theorem missing_id_error_to_origin_only:
  assumes "names_no_record i st"
  shows "snd (on_update Todo socket (Some \<lparr>upd_id = i, upd_updates = u\<rparr>) st) = st \<and>
         only_error socket (fst (on_update Todo socket (Some \<lparr>upd_id = i, upd_updates = u\<rparr>) st)) \<and>
         snd (on_delete socket (Some i) st) = st \<and>
         only_error socket (fst (on_delete socket (Some i) st)) \<and>
         (i \<noteq> NotObjectId \<and> validateUpdate Todo u \<and> dbUp st \<longrightarrow>
            fst (on_update Todo socket (Some \<lparr>upd_id = i, upd_updates = u\<rparr>) st)
              = [(fst socket, EvError ''Todo not found'')] \<and>
            fst (on_delete socket (Some i) st) = [(fst socket, EvError ''Todo not found'')])"
  by (simp add: update_missing [OF assms] delete_missing [OF assms] only_error_def socket_emit_def)

theorem missing_id_error_to_origin_only_witness:
  "names_no_record (ObjectId 9) stocked \<and>
   ObjectId 9 \<noteq> NotObjectId \<and> validateUpdate any_schema mark_done \<and> dbUp stocked \<and>
   on_update any_schema (''s1'', ''10.0.0.1'')
       (Some \<lparr>upd_id = ObjectId 9, upd_updates = mark_done\<rparr>) stocked
     = ([(''s1'', EvError ''Todo not found'')], stocked) \<and>
   on_delete (''s1'', ''10.0.0.1'') (Some (ObjectId 9)) stocked
     = ([(''s1'', EvError ''Todo not found'')], stocked)"
proof -
  have h: "names_no_record (ObjectId 9) stocked"
    by (simp add: names_no_record_def stocked_def findById_def sample_todo_def)
  have g: "validateUpdate any_schema mark_done" "dbUp stocked"
    by (simp_all add: any_schema_def stocked_def)
  show ?thesis
    using h g missing_id_error_to_origin_only [OF h, of any_schema "(''s1'', ''10.0.0.1'')" mark_done]
    by (simp add: prod_eq_iff)
qed

section \<open>Listing and creation on the two surfaces\<close>

lemma sort_desc_sorted:
  "sorted_wrt (\<lambda>x y. createdAt y \<le> createdAt x) (sort_desc ts)"
proof -
  have "sorted (map createdAt (sort_key createdAt ts))" by (rule sorted_sort_key)
  then have "sorted_wrt (\<lambda>x y. createdAt x \<le> createdAt y) (sort_key createdAt ts)"
    by (simp add: sorted_wrt_map)
  then show ?thesis
    by (simp add: sort_desc_def sorted_wrt_rev)
qed

lemma sort_desc_mset: "mset (sort_desc ts) = mset ts"
  by (simp add: sort_desc_def)

lemma matches_no_filter: "matches \<lparr>f_complete = None, f_priority = None\<rparr> t"
  by (simp add: matches_def)

text \<open>
  C9. While the database is up, the session command all and GET /todos without query
  parameters answer with the same list: every record of the collection, ordered by
  creation time, latest first.
\<close>

theorem list_all_same_descending_order:
  assumes "dbUp st"
  shows "on_all socket st = ([(fst socket, EvAll (sort_desc (todos st)))], st) \<and>
         get_todos None None st = (200, JList (length (todos st)) (sort_desc (todos st))) \<and>
         sorted_wrt (\<lambda>x y. createdAt y \<le> createdAt x) (sort_desc (todos st)) \<and>
         mset (sort_desc (todos st)) = mset (todos st)"
  using assms
  by (simp add: on_all_def get_todos_def find_sorted_def socket_emit_def matches_no_filter
      sort_desc_sorted sort_desc_mset) (simp add: sort_desc_def)

theorem list_all_same_descending_order_witness:
  "dbUp stocked \<and>
   on_all (''s1'', ''10.0.0.1'') stocked
     = ([(''s1'', EvAll [sample_todo 2 30, sample_todo 3 20, sample_todo 1 10])], stocked) \<and>
   get_todos None None stocked
     = (200, JList 3 [sample_todo 2 30, sample_todo 3 20, sample_todo 1 10])"
proof -
  have h: "dbUp stocked" by (simp add: stocked_def)
  have s: "sort_desc (todos stocked) = [sample_todo 2 30, sample_todo 3 20, sample_todo 1 10]"
    by (simp add: sort_desc_def stocked_def sample_todo_def)
  have l: "length (todos stocked) = 3" by (simp add: stocked_def)
  show ?thesis
    using h list_all_same_descending_order [OF h, of "(''s1'', ''10.0.0.1'')"]
    by (simp add: s l)
qed

lemma save_keeps_fields:
  "save Todo doc st = Inr (r, st') \<Longrightarrow> complete r = complete doc \<and> priority r = priority doc"
  by (auto simp: save_def Let_def split: if_splits)

lemma on_add_record:
  assumes "(s, EvAdded r) \<in> set (fst (on_add Todo socket (Some d) st))"
  shows "complete r = False \<and> priority r = or_str (d_priority d) ''medium''"
proof (cases "save Todo (add_document d) st")
  case (Inl err)
  with assms show ?thesis by (simp add: on_add_def socket_emit_def)
next
  case (Inr p)
  obtain r' st' where p: "p = (r', st')" by (cases p)
  from Inr p have k: "complete r' = complete (add_document d) \<and> priority r' = priority (add_document d)"
    by (simp add: save_keeps_fields)
  from Inr p assms have "r = r'"
    by (auto simp: on_add_def socket_emit_def broadcast_emit_def)
  with k show ?thesis by (simp add: add_document_def new_Todo_def)
qed

lemma save_posted_Inr:
  "save_posted Todo b st = Inr p \<Longrightarrow> save Todo (post_document b) st = Inr p"
  by (auto simp: save_posted_def split: option.splits)

lemma post_todo_record:
  assumes "fst (post_todo Todo d st) = (201, JData m r)"
  shows "complete r = or_false (d_complete d) \<and> priority r = or_str (d_priority d) ''medium''"
proof -
  let ?b = "post_sanitize d"
  from assms have v: "post_validation ?b = []"
    by (auto simp: post_todo_def Let_def split: if_splits)
  show ?thesis
  proof (cases "save_posted Todo ?b st")
    case (Inl err)
    with assms v show ?thesis by (simp add: post_todo_def Let_def)
  next
    case (Inr p)
    obtain r' st' where p: "p = (r', st')" by (cases p)
    from Inr p have "save Todo (post_document ?b) st = Inr (r', st')"
      by (simp add: save_posted_Inr)
    then have k: "complete r' = complete (post_document ?b) \<and> priority r' = priority (post_document ?b)"
      by (rule save_keeps_fields)
    from Inr p assms v have "r = r'" by (simp add: post_todo_def Let_def)
    with k show ?thesis
      by (simp add: post_document_def new_Todo_def post_sanitize_def)
  qed
qed

text \<open>
  C10, as amended. A record created by the session command add has complete false
  whatever the payload says, and the priority of the payload, or medium when the
  payload has none. A record created by POST /todos has the same priority, and has
  complete true exactly when the body gives complete as true.
\<close>

theorem create_defaults_on_both_surfaces:
  "((s, EvAdded r) \<in> set (fst (on_add Todo socket (Some d) st)) \<longrightarrow>
      complete r = False \<and>
      priority r = (case d_priority d of None \<Rightarrow> ''medium''
                    | Some p \<Rightarrow> if p = [] then ''medium'' else p)) \<and>
   (fst (post_todo Todo d st') = (201, JData m r') \<longrightarrow>
      complete r' = (d_complete d = Some True) \<and>
      priority r' = (case d_priority d of None \<Rightarrow> ''medium''
                     | Some p \<Rightarrow> if p = [] then ''medium'' else p))"
proof -
  have c: "or_false (d_complete d) = (d_complete d = Some True)"
    by (simp add: or_false_def split: option.splits)
  show ?thesis
    using on_add_record [of s r Todo socket d st] post_todo_record [of Todo d st' m r']
    by (auto simp: c or_str_def)
qed

lemma one_session_post:
  "post_todo any_schema body_done one_session
     = ((201, JData ''Todo created successfully'' (first_todo True)), [],
        one_session\<lparr>todos := [first_todo True], nextId := 8\<rparr>)"
  by (simp add: post_todo_def post_sanitize_def post_validation_def title_errors_def priority_errors_def post_document_def
      save_posted_def
      body_done_def one_session_def any_schema_def save_def new_Todo_def or_str_def
      or_false_def first_todo_def trim_def is_space_def Let_def)

lemma one_session_add:
  "on_add any_schema (''c'', ''10.0.0.3'') (Some body_done) one_session
     = ([(''c'', EvAdded (first_todo False))],
        one_session\<lparr>todos := [first_todo False], nextId := 8\<rparr>)"
  by (simp add: on_add_def add_document_def body_done_def one_session_def any_schema_def
      save_def new_Todo_def or_str_def first_todo_def socket_emit_def broadcast_emit_def
      Let_def)

theorem create_defaults_on_both_surfaces_witness:
  "(''c'', EvAdded (first_todo False))
     \<in> set (fst (on_add any_schema (''c'', ''10.0.0.3'') (Some body_done) one_session)) \<and>
   fst (post_todo any_schema body_done one_session)
     = (201, JData ''Todo created successfully'' (first_todo True)) \<and>
   complete (first_todo False) = False \<and> priority (first_todo False) = ''medium'' \<and>
   complete (first_todo True) = True \<and> priority (first_todo True) = ''medium''"
proof -
  have a: "(''c'', EvAdded (first_todo False))
     \<in> set (fst (on_add any_schema (''c'', ''10.0.0.3'') (Some body_done) one_session))"
    by (simp add: one_session_add)
  have b: "fst (post_todo any_schema body_done one_session)
     = (201, JData ''Todo created successfully'' (first_todo True))"
    by (simp add: one_session_post)
  have d: "d_complete body_done = Some True" "d_priority body_done = None"
    by (simp_all add: body_done_def)
  show ?thesis
    using a b create_defaults_on_both_surfaces
      [of "''c''" "first_todo False" any_schema "(''c'', ''10.0.0.3'')" body_done one_session
          one_session "''Todo created successfully''" "first_todo True"]
    by (simp add: d)
qed

text \<open>
  C10 fails for a body with complete true: POST /todos stores the record with complete
  true, the session command add with the same payload stores it with complete false.
\<close>

theorem create_complete_differs_counterexample:
  "fst (post_todo any_schema body_done one_session)
     = (201, JData ''Todo created successfully'' (first_todo True)) \<and>
   fst (on_add any_schema (''c'', ''10.0.0.3'') (Some body_done) one_session)
     = [(''c'', EvAdded (first_todo False))] \<and>
   complete (first_todo True) \<noteq> complete (first_todo False)"
  by (simp add: one_session_post one_session_add first_todo_def)

lemma update_call_silent: "fst (snd (update_call Todo i b u st)) = []"
  by (simp add: update_call_def split: sum.splits option.splits prod.splits)

text \<open>
  C1 fails on the code: no handler of routes/todos.js emits to any session. A POST that
  creates a record while session c is open answers 201 with the saved record, and c
  receives nothing.
\<close>

theorem http_mutation_emits_nothing:
  "fst (snd (post_todo Todo body st)) = [] \<and>
   fst (snd (put_todo Todo i body st)) = [] \<and>
   fst (snd (patch_todo Todo i body st)) = [] \<and>
   fst (snd (delete_todo i st)) = [] \<and>
   post_todo any_schema body_abc one_session
     = ((201, JData ''Todo created successfully'' (first_todo False)), [],
        one_session\<lparr>todos := [first_todo False], nextId := 8\<rparr>) \<and>
   sockets one_session = [(''c'', ''10.0.0.3'')] \<and>
   received ''c'' (fst (snd (post_todo any_schema body_abc one_session))) = []"
proof -
  have p: "fst (snd (post_todo Todo body st)) = []"
    by (simp add: post_todo_def Let_def split: sum.splits prod.splits)
  have u: "fst (snd (put_todo Todo i body st)) = []"
    by (simp add: put_todo_def Let_def update_call_silent)
  have a: "fst (snd (patch_todo Todo i body st)) = []"
    by (simp add: patch_todo_def Let_def update_call_silent)
  have d: "fst (snd (delete_todo i st)) = []"
    by (simp add: delete_todo_def split: id_arg.splits sum.splits option.splits prod.splits)
  have e: "post_todo any_schema body_abc one_session
     = ((201, JData ''Todo created successfully'' (first_todo False)), [],
        one_session\<lparr>todos := [first_todo False], nextId := 8\<rparr>)"
    by (simp add: post_todo_def post_sanitize_def post_validation_def title_errors_def priority_errors_def post_document_def
      save_posted_def
        body_abc_def one_session_def any_schema_def save_def new_Todo_def or_str_def
        or_false_def first_todo_def trim_def is_space_def Let_def)
  have s: "sockets one_session = [(''c'', ''10.0.0.3'')]"
    by (simp add: one_session_def)
  from p u a d e s show ?thesis by (simp add: received_def)
qed

end
